theory Spec2Isabelle
  imports Main
begin

section \<open>Data model\<close>

text \<open>
  The loader of \<^verbatim>\<open>saleor/graphql/warehouse/dataloaders.py\<close> answers keys
  \<^verbatim>\<open>(variant_id, shipping_zone)\<close> with an available quantity. A shipping zone is
  \<^verbatim>\<open>Optional[str]\<close>, a variant id a Python integer.
\<close>

type_synonym ShippingZone = "string option"

type_synonym VariantIdAndShippingZone = "int \<times> ShippingZone"

text \<open>
  The only exception the two methods can raise by themselves is the \<^verbatim>\<open>ValueError\<close> of
  \<^verbatim>\<open>max\<close> on an empty sequence (line 71).
\<close>

datatype error = ValueError

text \<open>
  The \<^verbatim>\<open>Stock\<close> model and the database are not part of the source file, so the
  table is a parameter of the model: the list of rows that the join of a stock with the
  shipping zones of its warehouse has, each with the three columns that
  \<^verbatim>\<open>values_list\<close> selects (line 52) and the zone name that the filter of line 50
  compares. A stock whose warehouse has no shipping zone has \<open>None\<close> in both zone
  columns.
\<close>

record Stock =
  product_variant_id :: int
  warehouse_shipping_zones :: "int option"
  warehouse_shipping_zones_name :: "string option"
  available_quantity :: int

text \<open>
  The state that the loader changes outside itself is the database traffic: the log
  holds, for every query that was executed, its \<^verbatim>\<open>product_variant_id__in\<close> argument.
\<close>

type_synonym query_log = "int list list"

section \<open>Python primitives\<close>

text \<open>Truth value of an \<^verbatim>\<open>Optional[str]\<close>: \<^verbatim>\<open>None\<close> and the empty string are false.\<close>

definition truthy :: "ShippingZone \<Rightarrow> bool" where
  "truthy shipping_zone = (case shipping_zone of None \<Rightarrow> False | Some s \<Rightarrow> s \<noteq> [])"

text \<open>
  A \<^verbatim>\<open>defaultdict\<close> that is iterated later is an association list in insertion order.
  \<open>defaultdict_modify dflt f k d\<close> is \<^verbatim>\<open>d[k] = f(d[k])\<close>: a missing key is first
  inserted at the end with the default value, a present key keeps its position.
\<close>

fun defaultdict_modify :: "'v \<Rightarrow> ('v \<Rightarrow> 'v) \<Rightarrow> 'k \<Rightarrow> ('k \<times> 'v) list \<Rightarrow> ('k \<times> 'v) list" where
  "defaultdict_modify dflt f k [] = [(k, f dflt)]"
| "defaultdict_modify dflt f k ((k', v) # d) =
     (if k' = k then (k', f v) # d else (k', v) # defaultdict_modify dflt f k d)"

text \<open>Reading \<^verbatim>\<open>d[k]\<close> from a \<^verbatim>\<open>defaultdict(int)\<close> that is never iterated afterwards.\<close>

definition defaultdict_int_get :: "('k \<rightharpoonup> int) \<Rightarrow> 'k \<Rightarrow> int" where
  "defaultdict_int_get d k = (case d k of None \<Rightarrow> 0 | Some v \<Rightarrow> v)"

text \<open>\<^verbatim>\<open>max(iterable)\<close> raises \<^verbatim>\<open>ValueError\<close> on an empty iterable.\<close>

fun py_max :: "int list \<Rightarrow> error + int" where
  "py_max [] = Inl ValueError"
| "py_max (x # xs) = Inr (fold max xs x)"

section \<open>The partition of the keys (lines 29 to 31)\<close>

definition variants_by_shipping_zone ::
    "VariantIdAndShippingZone list \<Rightarrow> (ShippingZone \<times> int list) list" where
  "variants_by_shipping_zone keys =
     fold (\<lambda>(variant_id, shipping_zone).
             defaultdict_modify [] (\<lambda>variant_ids. variant_ids @ [variant_id]) shipping_zone)
          keys []"

section \<open>One shipping zone (lines 45 to 81)\<close>

text \<open>Line 48: the query set \<^verbatim>\<open>Stock.objects.filter(product_variant_id__in=variant_ids)\<close>.\<close>

definition filter_product_variant_id_in :: "int list \<Rightarrow> Stock list \<Rightarrow> Stock list" where
  "filter_product_variant_id_in variant_ids stocks =
     filter (\<lambda>s. product_variant_id s \<in> set variant_ids) stocks"

text \<open>Line 50: \<^verbatim>\<open>.filter(warehouse__shipping_zones__name=shipping_zone)\<close>, a new query set.\<close>

definition filter_shipping_zones_name :: "ShippingZone \<Rightarrow> Stock list \<Rightarrow> Stock list" where
  "filter_shipping_zones_name shipping_zone stocks =
     filter (\<lambda>s. warehouse_shipping_zones_name s = shipping_zone) stocks"

text \<open>Lines 52 to 54: the three selected columns.\<close>

definition values_list :: "Stock list \<Rightarrow> (int \<times> int option \<times> int) list" where
  "values_list stocks =
     map (\<lambda>s. (product_variant_id s, warehouse_shipping_zones s, available_quantity s)) stocks"

text \<open>Lines 59 to 65: the quantities are summed per variant and shipping zone id.\<close>

definition quantity_by_shipping_zone_by_product_variant ::
    "(int \<times> int option \<times> int) list \<Rightarrow> (int \<times> (int option \<times> int) list) list" where
  "quantity_by_shipping_zone_by_product_variant results =
     fold (\<lambda>(variant_id, shipping_zone_id, quantity).
             defaultdict_modify []
               (defaultdict_modify 0 (\<lambda>q. q + quantity) shipping_zone_id) variant_id)
          results []"

text \<open>Lines 66 to 71: the largest zone total of every variant that has a row.\<close>

fun quantity_map_loop ::
    "(int \<times> (int option \<times> int) list) list \<Rightarrow> (int \<rightharpoonup> int) \<Rightarrow> error + (int \<rightharpoonup> int)" where
  "quantity_map_loop [] quantity_map = Inr quantity_map"
| "quantity_map_loop ((variant_id, quantity_by_shipping_zone) # items) quantity_map =
     (case py_max (map snd quantity_by_shipping_zone) of
        Inl e \<Rightarrow> Inl e
      | Inr m \<Rightarrow> quantity_map_loop items (quantity_map(variant_id \<mapsto> m)))"

text \<open>
  Lines 48 to 71 together. The query set of line 50 is built and dropped: \<^verbatim>\<open>filter\<close>
  returns a new query set and leaves \<^verbatim>\<open>results\<close> as it was, and the statement
  does not assign its value.
\<close>

definition quantity_map ::
    "Stock list \<Rightarrow> ShippingZone \<Rightarrow> int list \<Rightarrow> error + (int \<rightharpoonup> int)" where
  "quantity_map stocks shipping_zone variant_ids =
     (let results = filter_product_variant_id_in variant_ids stocks;
          dropped = (if truthy shipping_zone
                     then filter_shipping_zones_name shipping_zone results else results);
          results = values_list results
      in quantity_map_loop (quantity_by_shipping_zone_by_product_variant results) Map.empty)"

text \<open>
  The whole method. A query set is lazy: the one kept in \<^verbatim>\<open>results\<close> is executed
  once, by the loop of line 62, and the dropped one never. The cap
  \<^verbatim>\<open>settings.MAX_CHECKOUT_LINE_QUANTITY\<close> is a parameter.
\<close>

definition batch_load_shipping_zone ::
    "Stock list \<Rightarrow> int \<Rightarrow> ShippingZone \<Rightarrow> int list \<Rightarrow> query_log
       \<Rightarrow> (error + (int \<times> int) list) \<times> query_log" where
  "batch_load_shipping_zone stocks MAX_CHECKOUT_LINE_QUANTITY shipping_zone variant_ids log =
     (case quantity_map stocks shipping_zone variant_ids of
        Inl e \<Rightarrow> (Inl e, log @ [variant_ids])
      | Inr qm \<Rightarrow>
          (Inr (map (\<lambda>variant_id.
                       (variant_id,
                        min (defaultdict_int_get qm variant_id) MAX_CHECKOUT_LINE_QUANTITY))
                    variant_ids),
           log @ [variant_ids]))"

section \<open>The batch (lines 25 to 43)\<close>

text \<open>Lines 39 to 41: the answers of one zone are stored under \<^verbatim>\<open>(variant_id, shipping_zone)\<close>.\<close>

definition store_quantities ::
    "ShippingZone \<Rightarrow> (int \<times> int) list \<Rightarrow> (VariantIdAndShippingZone \<rightharpoonup> int)
       \<Rightarrow> (VariantIdAndShippingZone \<rightharpoonup> int)" where
  "store_quantities shipping_zone quantities d =
     fold (\<lambda>(variant_id, quantity) d. d((variant_id, shipping_zone) \<mapsto> quantity)) quantities d"

text \<open>Lines 37 to 41: one call of \<open>batch_load_shipping_zone\<close> for every item of the partition.\<close>

fun load_shipping_zones ::
    "Stock list \<Rightarrow> int \<Rightarrow> (ShippingZone \<times> int list) list
       \<Rightarrow> (VariantIdAndShippingZone \<rightharpoonup> int) \<Rightarrow> query_log
       \<Rightarrow> (error + (VariantIdAndShippingZone \<rightharpoonup> int)) \<times> query_log" where
  "load_shipping_zones stocks cap [] d log = (Inr d, log)"
| "load_shipping_zones stocks cap ((shipping_zone, variant_ids) # items) d log =
     (case batch_load_shipping_zone stocks cap shipping_zone variant_ids log of
        (Inl e, log') \<Rightarrow> (Inl e, log')
      | (Inr quantities, log') \<Rightarrow>
          load_shipping_zones stocks cap items (store_quantities shipping_zone quantities d) log')"

definition batch_load ::
    "Stock list \<Rightarrow> int \<Rightarrow> VariantIdAndShippingZone list \<Rightarrow> query_log
       \<Rightarrow> (error + int list) \<times> query_log" where
  "batch_load stocks cap keys log =
     (case load_shipping_zones stocks cap (variants_by_shipping_zone keys) Map.empty log of
        (Inl e, log') \<Rightarrow> (Inl e, log')
      | (Inr quantity_by_variant_and_shipping_zone, log') \<Rightarrow>
          (Inr (map (defaultdict_int_get quantity_by_variant_and_shipping_zone) keys), log'))"

section \<open>Notions of the specification\<close>

text \<open>
  The variant ids that the keys request under one shipping zone, in the order and with
  the multiplicity of the keys.
\<close>

definition requested :: "VariantIdAndShippingZone list \<Rightarrow> ShippingZone \<Rightarrow> int list" where
  "requested keys shipping_zone = map fst (filter (\<lambda>key. snd key = shipping_zone) keys)"

text \<open>
  Reading \<^verbatim>\<open>d[k]\<close> from a \<^verbatim>\<open>defaultdict\<close> kept as an association list.
\<close>

definition defaultdict_get :: "'v \<Rightarrow> ('k \<times> 'v) list \<Rightarrow> 'k \<Rightarrow> 'v" where
  "defaultdict_get dflt d k = (case map_of d k of None \<Rightarrow> dflt | Some v \<Rightarrow> v)"

text \<open>
  First level of the aggregation as the specification words it: the sum of the quantities
  of all records that share the pair of item and subgroup.
\<close>

definition subgroup_sum :: "(int \<times> int option \<times> int) list \<Rightarrow> int \<Rightarrow> int option \<Rightarrow> int" where
  "subgroup_sum records item subgroup =
     sum_list (map (\<lambda>r. snd (snd r))
                   (filter (\<lambda>r. fst r = item \<and> fst (snd r) = subgroup) records))"

text \<open>
  The subgroups (shipping zone ids) that the records of an item name.
\<close>

definition subgroups_of :: "(int \<times> int option \<times> int) list \<Rightarrow> int \<Rightarrow> int option set" where
  "subgroups_of records item = (\<lambda>r. fst (snd r)) ` set (filter (\<lambda>r. fst r = item) records)"

text \<open>
  Second level as the specification words it: the maximum of the subgroup sums over the
  subgroups of the item.
\<close>

definition max_subgroup_sum :: "(int \<times> int option \<times> int) list \<Rightarrow> int \<Rightarrow> int" where
  "max_subgroup_sum records item = Max (subgroup_sum records item ` subgroups_of records item)"

text \<open>
  The aggregated value of an item over the whole table, and 0 for an item without a row.
\<close>

definition aggregated :: "Stock list \<Rightarrow> int \<Rightarrow> int" where
  "aggregated stocks item =
     (if item \<in> product_variant_id ` set stocks
      then max_subgroup_sum (values_list stocks) item else 0)"

section \<open>Examples of the specification\<close>

text \<open>
  The records of the aggregation example: item 1 has 5 and 3 in subgroup 1 and 4 in subgroup
  2, both subgroups under the qualifier Q.
\<close>

definition example_stocks :: "Stock list" where
  "example_stocks =
     [\<lparr>product_variant_id = 1, warehouse_shipping_zones = Some 1,
       warehouse_shipping_zones_name = Some ''Q'', available_quantity = 5\<rparr>,
      \<lparr>product_variant_id = 1, warehouse_shipping_zones = Some 1,
       warehouse_shipping_zones_name = Some ''Q'', available_quantity = 3\<rparr>,
      \<lparr>product_variant_id = 1, warehouse_shipping_zones = Some 2,
       warehouse_shipping_zones_name = Some ''Q'', available_quantity = 4\<rparr>]"

text \<open>A batch with a duplicate key and an item without any row.\<close>

definition example_keys :: "VariantIdAndShippingZone list" where
  "example_keys = [(1, Some ''Q''), (2, None), (1, Some ''Q'')]"

section \<open>Association lists with a default\<close>

lemma map_of_defaultdict_modify:
  "map_of (defaultdict_modify dflt f k d) k' =
     (if k' = k then Some (f (case map_of d k of None \<Rightarrow> dflt | Some v \<Rightarrow> v)) else map_of d k')"
  by (induction d) auto

lemma keys_defaultdict_modify:
  "map fst (defaultdict_modify dflt f k d) =
     (if k \<in> fst ` set d then map fst d else map fst d @ [k])"
  by (induction d) force+

lemma distinct_defaultdict_modify:
  "distinct (map fst d) \<Longrightarrow> distinct (map fst (defaultdict_modify dflt f k d))"
  by (simp add: keys_defaultdict_modify)

lemma defaultdict_modify_not_Nil: "defaultdict_modify dflt f k d \<noteq> []"
  by (cases d) (auto split: if_splits)

section \<open>The partition lists the requested variants\<close>

lemma variants_by_shipping_zone_snoc:
  "variants_by_shipping_zone (keys @ [(v, z)]) =
     defaultdict_modify [] (\<lambda>variant_ids. variant_ids @ [v]) z (variants_by_shipping_zone keys)"
  by (simp add: variants_by_shipping_zone_def)

lemma requested_Nil: "z \<notin> snd ` set keys \<Longrightarrow> requested keys z = []"
  by (induction keys) (auto simp: requested_def)

lemma requested_snoc:
  "requested (keys @ [(v, z')]) z = (if z' = z then requested keys z @ [v] else requested keys z)"
  by (simp add: requested_def)

lemma zones_of_partition:
  "map_of (variants_by_shipping_zone keys) z =
     (if z \<in> snd ` set keys then Some (requested keys z) else None)"
proof (induction keys arbitrary: z rule: rev_induct)
  case Nil
  show ?case by (simp add: variants_by_shipping_zone_def)
next
  case (snoc key keys)
  obtain v z' where key: "key = (v, z')" by (cases key)
  show ?case
  proof (cases "z = z'")
    case True
    have "(case map_of (variants_by_shipping_zone keys) z' of None \<Rightarrow> [] | Some ids \<Rightarrow> ids)
            = requested keys z'"
      using snoc.IH [of z'] requested_Nil [of z' keys]
      by (cases "z' \<in> snd ` set keys") simp_all
    with True show ?thesis
      unfolding key variants_by_shipping_zone_snoc map_of_defaultdict_modify requested_snoc
      by simp
  next
    case False
    then show ?thesis
      unfolding key variants_by_shipping_zone_snoc map_of_defaultdict_modify requested_snoc
      using snoc.IH [of z] by auto
  qed
qed

lemma distinct_partition: "distinct (map fst (variants_by_shipping_zone keys))"
proof (induction keys rule: rev_induct)
  case Nil
  show ?case by (simp add: variants_by_shipping_zone_def)
next
  case (snoc key keys)
  obtain v z' where key: "key = (v, z')" by (cases key)
  show ?case
    unfolding key variants_by_shipping_zone_snoc
    using snoc.IH by (rule distinct_defaultdict_modify)
qed

lemma keys_of_partition: "fst ` set (variants_by_shipping_zone keys) = snd ` set keys"
proof -
  have "dom (map_of (variants_by_shipping_zone keys)) = snd ` set keys"
    unfolding dom_def zones_of_partition by simp
  then show ?thesis by (simp add: dom_map_of_conv_image_fst)
qed

lemma in_partition_iff:
  "(z, ids) \<in> set (variants_by_shipping_zone keys) \<longleftrightarrow>
     z \<in> snd ` set keys \<and> ids = requested keys z"
proof -
  have "(z, ids) \<in> set (variants_by_shipping_zone keys) \<longleftrightarrow>
          map_of (variants_by_shipping_zone keys) z = Some ids"
    using distinct_partition [of keys] by simp
  also have "\<dots> \<longleftrightarrow> z \<in> snd ` set keys \<and> ids = requested keys z"
    unfolding zones_of_partition by (cases "z \<in> snd ` set keys") (simp_all add: eq_commute)
  finally show ?thesis .
qed

lemma length_partition: "length (variants_by_shipping_zone keys) = card (snd ` set keys)"
proof -
  have "length (variants_by_shipping_zone keys) = length (map fst (variants_by_shipping_zone keys))"
    by simp
  also have "\<dots> = card (set (map fst (variants_by_shipping_zone keys)))"
    using distinct_partition by (rule distinct_card [symmetric])
  also have "\<dots> = card (snd ` set keys)"
    by (simp add: keys_of_partition)
  finally show ?thesis .
qed

section \<open>Zone totals are the subgroup sums\<close>

lemma defaultdict_get_modify:
  "defaultdict_get dflt (defaultdict_modify dflt f k d) k' =
     (if k' = k then f (defaultdict_get dflt d k) else defaultdict_get dflt d k')"
  by (simp add: defaultdict_get_def map_of_defaultdict_modify)

lemma by_zone_snoc:
  "quantity_by_shipping_zone_by_product_variant (records @ [(v, z, q)]) =
     defaultdict_modify [] (defaultdict_modify 0 (\<lambda>q'. q' + q) z) v
       (quantity_by_shipping_zone_by_product_variant records)"
  by (simp add: quantity_by_shipping_zone_by_product_variant_def)

lemma by_zone_Nil: "quantity_by_shipping_zone_by_product_variant [] = []"
  by (simp add: quantity_by_shipping_zone_by_product_variant_def)

lemma subgroups_of_snoc:
  "subgroups_of (records @ [(v, z, q)]) item =
     (if v = item then insert z (subgroups_of records item) else subgroups_of records item)"
  by (simp add: subgroups_of_def)

lemma subgroup_sum_snoc:
  "subgroup_sum (records @ [(v, z, q)]) item subgroup =
     (if v = item \<and> z = subgroup then subgroup_sum records item subgroup + q
      else subgroup_sum records item subgroup)"
  by (simp add: subgroup_sum_def)

lemma subgroup_sum_outside:
  "subgroup \<notin> subgroups_of records item \<Longrightarrow> subgroup_sum records item subgroup = 0"
proof -
  assume a: "subgroup \<notin> subgroups_of records item"
  have "filter (\<lambda>r. fst r = item \<and> fst (snd r) = subgroup) records = []"
    unfolding filter_empty_conv
  proof
    fix r assume "r \<in> set records"
    with a show "\<not> (fst r = item \<and> fst (snd r) = subgroup)"
      by (auto simp: subgroups_of_def)
  qed
  then show ?thesis by (simp add: subgroup_sum_def)
qed

lemma subgroups_of_empty_iff: "subgroups_of records item = {} \<longleftrightarrow> item \<notin> fst ` set records"
proof -
  have "subgroups_of records item = {} \<longleftrightarrow> (\<forall>r\<in>set records. fst r \<noteq> item)"
    unfolding subgroups_of_def image_is_empty set_empty filter_empty_conv ..
  also have "\<dots> \<longleftrightarrow> item \<notin> fst ` set records"
    by force
  finally show ?thesis .
qed

lemma distinct_by_zone: "distinct (map fst (quantity_by_shipping_zone_by_product_variant records))"
proof (induction records rule: rev_induct)
  case Nil
  show ?case by (simp add: by_zone_Nil)
next
  case (snoc r records)
  obtain v z q where r: "r = (v, z, q)" by (cases r)
  show ?case unfolding r by_zone_snoc using snoc.IH by (rule distinct_defaultdict_modify)
qed

lemma keys_by_zone:
  "fst ` set (quantity_by_shipping_zone_by_product_variant records) = fst ` set records"
proof (induction records rule: rev_induct)
  case Nil
  show ?case by (simp add: by_zone_Nil)
next
  case (snoc r records)
  obtain v z q where r: "r = (v, z, q)" by (cases r)
  have "set (map fst (defaultdict_modify [] (defaultdict_modify 0 (\<lambda>q'. q' + q) z) v
          (quantity_by_shipping_zone_by_product_variant records)))
        = insert v (fst ` set (quantity_by_shipping_zone_by_product_variant records))"
    unfolding keys_defaultdict_modify by auto
  then show ?case unfolding r by_zone_snoc using snoc.IH by simp
qed

lemma distinct_inner:
  "distinct (map fst (defaultdict_get [] (quantity_by_shipping_zone_by_product_variant records) item))"
proof (induction records arbitrary: item rule: rev_induct)
  case Nil
  show ?case by (simp add: by_zone_Nil defaultdict_get_def)
next
  case (snoc r records)
  obtain v z q where r: "r = (v, z, q)" by (cases r)
  show ?case
    unfolding r by_zone_snoc defaultdict_get_modify
    using snoc.IH [of item] snoc.IH [of v] by (simp add: distinct_defaultdict_modify)
qed

lemma map_of_inner:
  "map_of (defaultdict_get [] (quantity_by_shipping_zone_by_product_variant records) item) subgroup =
     (if subgroup \<in> subgroups_of records item
      then Some (subgroup_sum records item subgroup) else None)"
proof (induction records arbitrary: item subgroup rule: rev_induct)
  case Nil
  show ?case by (simp add: by_zone_Nil defaultdict_get_def subgroups_of_def)
next
  case (snoc r records)
  obtain v z q where r: "r = (v, z, q)" by (cases r)
  show ?case
  proof (cases "v = item \<and> z = subgroup")
    case True
    have "(case map_of (defaultdict_get [] (quantity_by_shipping_zone_by_product_variant records) item) subgroup
             of None \<Rightarrow> 0 | Some s \<Rightarrow> s) = subgroup_sum records item subgroup"
      using snoc.IH [of item subgroup] subgroup_sum_outside [of subgroup records item]
      by (cases "subgroup \<in> subgroups_of records item") simp_all
    with True show ?thesis
      unfolding r by_zone_snoc defaultdict_get_modify subgroups_of_snoc subgroup_sum_snoc
      by (simp add: map_of_defaultdict_modify)
  next
    case False
    then show ?thesis
      unfolding r by_zone_snoc defaultdict_get_modify subgroups_of_snoc subgroup_sum_snoc
      using snoc.IH [of item subgroup]
      by (auto simp: map_of_defaultdict_modify)
  qed
qed

section \<open>The quantity map holds the largest subgroup sum\<close>

lemma py_max_Max:
  assumes "xs \<noteq> []"
  shows "py_max xs = Inr (Max (set xs))"
proof (cases xs)
  case Nil
  with assms show ?thesis by simp
next
  case (Cons x xs')
  have "fold max xs' x = Max (set (x # xs'))" by (rule Max.set_eq_fold [symmetric])
  then show ?thesis using Cons by simp
qed

lemma quantity_map_loop_Inr:
  "distinct (map fst items) \<Longrightarrow> \<forall>p\<in>set items. snd p \<noteq> [] \<Longrightarrow>
   quantity_map_loop items qm =
     Inr (\<lambda>v. case map_of items v of None \<Rightarrow> qm v
               | Some inner \<Rightarrow> Some (Max (set (map snd inner))))"
proof (induction items arbitrary: qm)
  case Nil
  show ?case by simp
next
  case (Cons p items)
  obtain v inner where p: "p = (v, inner)" by (cases p)
  from Cons.prems p have inner: "inner \<noteq> []" and v: "v \<notin> fst ` set items"
    and d: "distinct (map fst items)" and ne: "\<forall>p\<in>set items. snd p \<noteq> []"
    by auto
  from v have none: "map_of items v = None" by (simp add: map_of_eq_None_iff)
  have "quantity_map_loop (p # items) qm =
          quantity_map_loop items (qm(v \<mapsto> Max (set (map snd inner))))"
    using inner by (simp add: p py_max_Max)
  also have "\<dots> = Inr (\<lambda>v'. case map_of items v' of
                               None \<Rightarrow> (qm(v \<mapsto> Max (set (map snd inner)))) v'
                             | Some inner' \<Rightarrow> Some (Max (set (map snd inner'))))"
    using d ne by (rule Cons.IH)
  also have "(\<lambda>v'. case map_of items v' of
                 None \<Rightarrow> (qm(v \<mapsto> Max (set (map snd inner)))) v'
               | Some inner' \<Rightarrow> Some (Max (set (map snd inner'))))
           = (\<lambda>v'. case map_of (p # items) v' of None \<Rightarrow> qm v'
               | Some inner' \<Rightarrow> Some (Max (set (map snd inner'))))"
  proof
    fix v'
    show "(case map_of items v' of
                 None \<Rightarrow> (qm(v \<mapsto> Max (set (map snd inner)))) v'
               | Some inner' \<Rightarrow> Some (Max (set (map snd inner'))))
           = (case map_of (p # items) v' of None \<Rightarrow> qm v'
               | Some inner' \<Rightarrow> Some (Max (set (map snd inner'))))"
      using none by (cases "v' = v") (simp_all add: p split: option.split)
  qed
  finally show ?case .
qed

lemma by_zone_lookup:
  "map_of (quantity_by_shipping_zone_by_product_variant records) item =
     (if item \<in> fst ` set records
      then Some (defaultdict_get [] (quantity_by_shipping_zone_by_product_variant records) item)
      else None)"
proof (cases "item \<in> fst ` set records")
  case True
  then have "map_of (quantity_by_shipping_zone_by_product_variant records) item \<noteq> None"
    unfolding map_of_eq_None_iff keys_by_zone by simp
  with True show ?thesis by (auto simp: defaultdict_get_def)
next
  case False
  then have "map_of (quantity_by_shipping_zone_by_product_variant records) item = None"
    unfolding map_of_eq_None_iff keys_by_zone by simp
  with False show ?thesis by simp
qed

lemma inner_values:
  "snd ` set (defaultdict_get [] (quantity_by_shipping_zone_by_product_variant records) item)
     = subgroup_sum records item ` subgroups_of records item"
proof -
  let ?inner = "defaultdict_get [] (quantity_by_shipping_zone_by_product_variant records) item"
  have "snd ` set ?inner = ran (map_of ?inner)"
    using distinct_inner [of records item] by (simp add: ran_distinct)
  also have "\<dots> = subgroup_sum records item ` subgroups_of records item"
    unfolding ran_def map_of_inner by auto
  finally show ?thesis .
qed

lemma inner_not_Nil:
  assumes "item \<in> fst ` set records"
  shows "defaultdict_get [] (quantity_by_shipping_zone_by_product_variant records) item \<noteq> []"
proof
  assume e: "defaultdict_get [] (quantity_by_shipping_zone_by_product_variant records) item = []"
  from assms have "subgroups_of records item \<noteq> {}" by (simp add: subgroups_of_empty_iff)
  then have "subgroup_sum records item ` subgroups_of records item \<noteq> {}" by simp
  with inner_values [of records item] e show False by simp
qed

lemma by_zone_items_not_Nil:
  "\<forall>p\<in>set (quantity_by_shipping_zone_by_product_variant records). snd p \<noteq> []"
proof
  fix p assume p: "p \<in> set (quantity_by_shipping_zone_by_product_variant records)"
  obtain v inner where vi: "p = (v, inner)" by (cases p)
  from p vi have m: "map_of (quantity_by_shipping_zone_by_product_variant records) v = Some inner"
    using distinct_by_zone [of records] by simp
  then have "v \<in> fst ` set records \<and>
             inner = defaultdict_get [] (quantity_by_shipping_zone_by_product_variant records) v"
    unfolding by_zone_lookup by (simp split: if_splits)
  then show "snd p \<noteq> []" using inner_not_Nil [of v records] by (simp add: vi)
qed

lemma quantity_map_loop_by_zone:
  "quantity_map_loop (quantity_by_shipping_zone_by_product_variant records) Map.empty =
     Inr (\<lambda>item. if item \<in> fst ` set records
                  then Some (max_subgroup_sum records item) else None)"
proof -
  let ?D = "quantity_by_shipping_zone_by_product_variant records"
  have "quantity_map_loop ?D Map.empty =
     Inr (\<lambda>v. case map_of ?D v of None \<Rightarrow> None
               | Some inner \<Rightarrow> Some (Max (set (map snd inner))))"
    using distinct_by_zone by_zone_items_not_Nil by (rule quantity_map_loop_Inr)
  also have "(\<lambda>v. case map_of ?D v of None \<Rightarrow> None
               | Some inner \<Rightarrow> Some (Max (set (map snd inner))))
             = (\<lambda>item. if item \<in> fst ` set records
                  then Some (max_subgroup_sum records item) else None)"
  proof
    fix v
    show "(case map_of ?D v of None \<Rightarrow> None
               | Some inner \<Rightarrow> Some (Max (set (map snd inner))))
          = (if v \<in> fst ` set records then Some (max_subgroup_sum records v) else None)"
      unfolding by_zone_lookup by (simp add: inner_values max_subgroup_sum_def)
  qed
  finally show ?thesis .
qed

lemma quantity_map_eq:
  "quantity_map stocks shipping_zone variant_ids =
     Inr (\<lambda>item.
            if item \<in> fst ` set (values_list (filter_product_variant_id_in variant_ids stocks))
            then Some (max_subgroup_sum
                         (values_list (filter_product_variant_id_in variant_ids stocks)) item)
            else None)"
  unfolding quantity_map_def Let_def by (rule quantity_map_loop_by_zone)

section \<open>The answer for a variant does not depend on the other variants of the query\<close>

lemma filter_item_of_query:
  "item \<in> set variant_ids \<Longrightarrow>
   filter (\<lambda>r. fst r = item \<and> P r) (values_list (filter_product_variant_id_in variant_ids stocks))
     = filter (\<lambda>r. fst r = item \<and> P r) (values_list stocks)"
  by (induction stocks) (auto simp: values_list_def filter_product_variant_id_in_def)

lemma subgroup_sum_of_query:
  "item \<in> set variant_ids \<Longrightarrow>
   subgroup_sum (values_list (filter_product_variant_id_in variant_ids stocks)) item subgroup
     = subgroup_sum (values_list stocks) item subgroup"
  unfolding subgroup_sum_def by (simp add: filter_item_of_query)

lemma subgroups_of_query:
  "item \<in> set variant_ids \<Longrightarrow>
   subgroups_of (values_list (filter_product_variant_id_in variant_ids stocks)) item
     = subgroups_of (values_list stocks) item"
  unfolding subgroups_of_def
  using filter_item_of_query [of item variant_ids "\<lambda>r. True" stocks] by simp

lemma max_subgroup_sum_of_query:
  "item \<in> set variant_ids \<Longrightarrow>
   max_subgroup_sum (values_list (filter_product_variant_id_in variant_ids stocks)) item
     = max_subgroup_sum (values_list stocks) item"
  unfolding max_subgroup_sum_def by (simp add: subgroups_of_query subgroup_sum_of_query)

lemma items_of_values_list: "fst ` set (values_list stocks) = product_variant_id ` set stocks"
  by (auto simp: values_list_def image_iff)

lemma items_of_query:
  "fst ` set (values_list (filter_product_variant_id_in variant_ids stocks))
     = product_variant_id ` set stocks \<inter> set variant_ids"
  unfolding items_of_values_list by (auto simp: filter_product_variant_id_in_def)

lemma quantity_map_get:
  assumes "quantity_map stocks shipping_zone variant_ids = Inr qm" and "item \<in> set variant_ids"
  shows "defaultdict_int_get qm item = aggregated stocks item"
proof -
  from assms(1) have "qm = (\<lambda>item.
            if item \<in> fst ` set (values_list (filter_product_variant_id_in variant_ids stocks))
            then Some (max_subgroup_sum
                         (values_list (filter_product_variant_id_in variant_ids stocks)) item)
            else None)"
    unfolding quantity_map_eq by simp
  then show ?thesis
    using assms(2)
    by (simp add: defaultdict_int_get_def aggregated_def items_of_query max_subgroup_sum_of_query)
qed

lemma batch_load_shipping_zone_eq:
  "batch_load_shipping_zone stocks cap shipping_zone variant_ids log =
     (Inr (map (\<lambda>variant_id. (variant_id, min (aggregated stocks variant_id) cap)) variant_ids),
      log @ [variant_ids])"
proof -
  obtain qm where qm: "quantity_map stocks shipping_zone variant_ids = Inr qm"
    unfolding quantity_map_eq by simp
  have "map (\<lambda>variant_id. (variant_id, min (defaultdict_int_get qm variant_id) cap)) variant_ids
      = map (\<lambda>variant_id. (variant_id, min (aggregated stocks variant_id) cap)) variant_ids"
    using quantity_map_get [OF qm] by simp
  then show ?thesis
    unfolding batch_load_shipping_zone_def qm by simp
qed

section \<open>The batch answers every key\<close>

lemma store_quantities_eq:
  "store_quantities shipping_zone (map (\<lambda>v. (v, g v)) variant_ids) d =
     (\<lambda>key. if snd key = shipping_zone \<and> fst key \<in> set variant_ids
            then Some (g (fst key)) else d key)"
proof (induction variant_ids arbitrary: d)
  case Nil
  show ?case by (simp add: store_quantities_def)
next
  case (Cons v variant_ids)
  have "store_quantities shipping_zone (map (\<lambda>v. (v, g v)) (v # variant_ids)) d =
        store_quantities shipping_zone (map (\<lambda>v. (v, g v)) variant_ids)
          (d((v, shipping_zone) \<mapsto> g v))"
    by (simp add: store_quantities_def)
  also have "\<dots> = (\<lambda>key. if snd key = shipping_zone \<and> fst key \<in> set variant_ids
            then Some (g (fst key)) else (d((v, shipping_zone) \<mapsto> g v)) key)"
    by (rule Cons.IH)
  also have "\<dots> = (\<lambda>key. if snd key = shipping_zone \<and> fst key \<in> set (v # variant_ids)
            then Some (g (fst key)) else d key)"
    by (rule ext) (auto simp: prod_eq_iff)
  finally show ?case .
qed

lemma load_shipping_zones_eq:
  "load_shipping_zones stocks cap items d log =
     (Inr (\<lambda>key. if \<exists>variant_ids. (snd key, variant_ids) \<in> set items \<and> fst key \<in> set variant_ids
                 then Some (min (aggregated stocks (fst key)) cap) else d key),
      log @ map snd items)"
proof (induction items arbitrary: d log)
  case Nil
  show ?case by simp
next
  case (Cons p items)
  obtain z ids where p: "p = (z, ids)" by (cases p)
  let ?g = "\<lambda>v. min (aggregated stocks v) cap"
  have "load_shipping_zones stocks cap (p # items) d log =
        load_shipping_zones stocks cap items
          (store_quantities z (map (\<lambda>v. (v, ?g v)) ids) d) (log @ [ids])"
    by (simp add: p batch_load_shipping_zone_eq)
  also have "\<dots> = (Inr (\<lambda>key. if \<exists>variant_ids. (snd key, variant_ids) \<in> set items \<and> fst key \<in> set variant_ids
                 then Some (?g (fst key))
                 else store_quantities z (map (\<lambda>v. (v, ?g v)) ids) d key),
      (log @ [ids]) @ map snd items)"
    by (rule Cons.IH)
  also have "(\<lambda>key. if \<exists>variant_ids. (snd key, variant_ids) \<in> set items \<and> fst key \<in> set variant_ids
                 then Some (?g (fst key))
                 else store_quantities z (map (\<lambda>v. (v, ?g v)) ids) d key)
      = (\<lambda>key. if \<exists>variant_ids. (snd key, variant_ids) \<in> set (p # items) \<and> fst key \<in> set variant_ids
                 then Some (?g (fst key)) else d key)"
    unfolding store_quantities_eq p by (rule ext) auto
  finally show ?case by (simp add: p)
qed

lemma in_requested: "key \<in> set keys \<Longrightarrow> fst key \<in> set (requested keys (snd key))"
  by (simp add: requested_def)

lemma batch_load_eq:
  "batch_load stocks cap keys log =
     (Inr (map (\<lambda>key. min (aggregated stocks (fst key)) cap) keys),
      log @ map snd (variants_by_shipping_zone keys))"
proof -
  let ?d = "\<lambda>key. if \<exists>variant_ids. (snd key, variant_ids) \<in> set (variants_by_shipping_zone keys)
                        \<and> fst key \<in> set variant_ids
                 then Some (min (aggregated stocks (fst key)) cap) else None"
  have "\<And>key. key \<in> set keys \<Longrightarrow>
          defaultdict_int_get ?d key = min (aggregated stocks (fst key)) cap"
  proof -
    fix key :: VariantIdAndShippingZone
    assume k: "key \<in> set keys"
    then have "(snd key, requested keys (snd key)) \<in> set (variants_by_shipping_zone keys)"
      unfolding in_partition_iff by simp
    with in_requested [OF k]
    have "\<exists>variant_ids. (snd key, variant_ids) \<in> set (variants_by_shipping_zone keys)
                        \<and> fst key \<in> set variant_ids"
      by blast
    then show "defaultdict_int_get ?d key = min (aggregated stocks (fst key)) cap"
      by (simp add: defaultdict_int_get_def)
  qed
  then have "map (defaultdict_int_get ?d) keys
           = map (\<lambda>key. min (aggregated stocks (fst key)) cap) keys"
    by (simp cong: map_cong)
  then show ?thesis
    unfolding batch_load_def load_shipping_zones_eq by simp
qed

section \<open>Quantities that are not negative\<close>

lemma subgroup_sum_nonneg:
  assumes "\<forall>s\<in>set stocks. 0 \<le> available_quantity s"
  shows "0 \<le> subgroup_sum (values_list stocks) item subgroup"
  unfolding subgroup_sum_def
proof (rule sum_list_nonneg)
  fix q
  assume "q \<in> set (map (\<lambda>r. snd (snd r))
            (filter (\<lambda>r. fst r = item \<and> fst (snd r) = subgroup) (values_list stocks)))"
  then obtain s where "s \<in> set stocks" and "q = available_quantity s"
    by (auto simp: values_list_def)
  with assms show "0 \<le> q" by simp
qed

lemma aggregated_nonneg:
  assumes "\<forall>s\<in>set stocks. 0 \<le> available_quantity s"
  shows "0 \<le> aggregated stocks item"
proof (cases "item \<in> product_variant_id ` set stocks")
  case True
  let ?sums = "subgroup_sum (values_list stocks) item ` subgroups_of (values_list stocks) item"
  have "subgroups_of (values_list stocks) item \<noteq> {}"
    using True by (simp add: subgroups_of_empty_iff items_of_values_list)
  moreover have "finite (subgroups_of (values_list stocks) item)"
    by (simp add: subgroups_of_def)
  ultimately have "Max ?sums \<in> ?sums" by (intro Max_in) simp_all
  then obtain z where "Max ?sums = subgroup_sum (values_list stocks) item z" by blast
  with subgroup_sum_nonneg [OF assms, of item z] True show ?thesis
    by (simp add: aggregated_def max_subgroup_sum_def)
next
  case False
  then show ?thesis by (simp add: aggregated_def)
qed

section \<open>Evaluation on concrete tables\<close>

lemmas eval_defs = batch_load_def variants_by_shipping_zone_def batch_load_shipping_zone_def
  quantity_map_def filter_product_variant_id_in_def filter_shipping_zones_name_def values_list_def
  quantity_by_shipping_zone_by_product_variant_def store_quantities_def defaultdict_int_get_def

section \<open>Claims\<close>

text \<open>
  C1 (the code departs from the claim). The claim wants the answer for a key with a shipping
  zone to come from the rows of that zone only. The filter of line 50 is built and dropped,
  so a row of zone A answers a key that asks for zone B: the table below has no row under
  B, and the key \<open>(1, B)\<close> is answered 5, as the key \<open>(1, A)\<close> is.
\<close>

theorem zone_filter_dropped_example:
  "filter_shipping_zones_name (Some ''B'')
     [\<lparr>product_variant_id = 1, warehouse_shipping_zones = Some 7,
       warehouse_shipping_zones_name = Some ''A'', available_quantity = 5\<rparr>] = []
   \<and> fst (batch_load
       [\<lparr>product_variant_id = 1, warehouse_shipping_zones = Some 7,
         warehouse_shipping_zones_name = Some ''A'', available_quantity = 5\<rparr>]
       10 [(1, Some ''A''), (1, Some ''B'')] []) = Inr [5, 5]"
  by (simp add: eval_defs)

text \<open>
  C2. For a fixed table and cap, the answer for a key does not depend on its shipping zone:
  two keys with the same variant id get the same answer, in the same batch or in two
  batches, whatever their zones are (present or absent).
\<close>

theorem answer_ignores_shipping_zone:
  assumes "i < length keys" and "j < length keys'" and "fst (keys ! i) = fst (keys' ! j)"
  shows "\<exists>results results'.
           fst (batch_load stocks cap keys log) = Inr results
         \<and> fst (batch_load stocks cap keys' log') = Inr results'
         \<and> results ! i = results' ! j"
  using assms by (simp add: batch_load_eq)

text \<open>
  Witness of C2: variant 1 asked under Q in one batch and without a zone in another.
\<close>

theorem answer_ignores_shipping_zone_witness:
  "(0::nat) < length [(1::int, Some ''Q'')] \<and> (1::nat) < length [(2::int, None :: ShippingZone), (1, None)]
   \<and> fst ([(1::int, Some ''Q'')] ! 0) = fst ([(2::int, None :: ShippingZone), (1, None)] ! 1)
   \<and> (\<exists>results results'.
           fst (batch_load example_stocks 10 [(1, Some ''Q'')] []) = Inr results
         \<and> fst (batch_load example_stocks 10 [(2, None), (1, None)] []) = Inr results'
         \<and> results ! 0 = results' ! 1)"
proof -
  have h1: "(0::nat) < length [(1::int, Some ''Q'')]" by simp
  have h2: "(1::nat) < length [(2::int, None :: ShippingZone), (1, None)]" by simp
  have h3: "fst ([(1::int, Some ''Q'')] ! 0) = fst ([(2::int, None :: ShippingZone), (1, None)] ! 1)"
    by simp
  note c = answer_ignores_shipping_zone [OF h1 h2 h3, of example_stocks 10 "[]" "[]"]
  show ?thesis by (rule conjI [OF h1 conjI [OF h2 conjI [OF h3 c]]])
qed

text \<open>
  C3. For every item with at least one record in the result of a zone's query, the value
  before the cap is the maximum, over the subgroups of the item, of the sum of the
  quantities of the records with that item and subgroup. On the example the value of item
  1 is max (5 + 3) 4 = 8, and the batch with the one key \<open>(1, Q)\<close> answers 8 under
  the cap 10 and 6 under the cap 6.
\<close>

theorem aggregation_is_max_of_sums:
  "(\<exists>qm. quantity_map stocks shipping_zone variant_ids = Inr qm
      \<and> (\<forall>item \<in> fst ` set (values_list (filter_product_variant_id_in variant_ids stocks)).
            qm item = Some (max_subgroup_sum
                       (values_list (filter_product_variant_id_in variant_ids stocks)) item)))
   \<and> max_subgroup_sum (values_list (filter_product_variant_id_in [1] example_stocks)) 1 = 8
   \<and> fst (batch_load example_stocks 10 [(1, Some ''Q'')] []) = Inr [8]
   \<and> fst (batch_load example_stocks 6 [(1, Some ''Q'')] []) = Inr [6]"
proof -
  have "max_subgroup_sum (values_list (filter_product_variant_id_in [1] example_stocks)) 1 = 8"
    by (simp add: max_subgroup_sum_def subgroups_of_def subgroup_sum_def values_list_def
        filter_product_variant_id_in_def example_stocks_def)
  moreover have "fst (batch_load example_stocks 10 [(1, Some ''Q'')] []) = Inr [8]"
    by (simp add: eval_defs example_stocks_def)
  moreover have "fst (batch_load example_stocks 6 [(1, Some ''Q'')] []) = Inr [6]"
    by (simp add: eval_defs example_stocks_def)
  ultimately show ?thesis by (simp add: quantity_map_eq)
qed

text \<open>
  Witness of C3: item 1 has records in the query for the variants 1 and 2, and its value is 8.
\<close>

theorem aggregation_is_max_of_sums_witness:
  "1 \<in> fst ` set (values_list (filter_product_variant_id_in [1, 2] example_stocks))
   \<and> (\<exists>qm. quantity_map example_stocks (Some ''Q'') [1, 2] = Inr qm \<and> qm 1 = Some 8)"
proof -
  have h: "1 \<in> fst ` set (values_list (filter_product_variant_id_in [1, 2] example_stocks))"
    by (simp add: values_list_def filter_product_variant_id_in_def example_stocks_def)
  have m: "max_subgroup_sum (values_list (filter_product_variant_id_in [1, 2] example_stocks)) 1 = 8"
    by (simp add: max_subgroup_sum_def subgroups_of_def subgroup_sum_def values_list_def
        filter_product_variant_id_in_def example_stocks_def)
  from aggregation_is_max_of_sums [of example_stocks "Some ''Q''" "[1, 2]"]
  obtain qm where "quantity_map example_stocks (Some ''Q'') [1, 2] = Inr qm"
    and "\<forall>item \<in> fst ` set (values_list (filter_product_variant_id_in [1, 2] example_stocks)).
            qm item = Some (max_subgroup_sum
                       (values_list (filter_product_variant_id_in [1, 2] example_stocks)) item)"
    by blast
  with h m show ?thesis by auto
qed

text \<open>
  C4. The batch returns a list as long as the list of keys, and its i-th element is the
  answer that the key at position i gets in a batch of its own: no key is left out, and
  order and multiplicity are those of the input.
\<close>

theorem answers_are_positional:
  "\<exists>results. fst (batch_load stocks cap keys log) = Inr results
      \<and> length results = length keys
      \<and> (\<forall>i < length keys. fst (batch_load stocks cap [keys ! i] log') = Inr [results ! i])"
  by (simp add: batch_load_eq)

text \<open>
  Witness of C4: position 1 of a batch of three keys.
\<close>

theorem answers_are_positional_witness:
  "(1::nat) < length [(2::int, None :: ShippingZone), (1, Some ''Q''), (2, None)]
   \<and> fst (batch_load example_stocks 10 [(2, None), (1, Some ''Q''), (2, None)] []) = Inr [0, 8, 0]
   \<and> fst (batch_load example_stocks 10 [[(2::int, None :: ShippingZone), (1, Some ''Q''), (2, None)] ! 1] [])
       = Inr [[0, 8, 0] ! 1]"
proof -
  have h: "(1::nat) < length [(2::int, None :: ShippingZone), (1, Some ''Q''), (2, None)]" by simp
  have e: "fst (batch_load example_stocks 10 [(2, None), (1, Some ''Q''), (2, None)] []) = Inr [0, 8, 0]"
    by (simp add: eval_defs example_stocks_def)
  from answers_are_positional
    [of example_stocks 10 "[(2, None), (1, Some ''Q''), (2, None)]" "[]" "[]"]
  obtain results where
    r: "fst (batch_load example_stocks 10 [(2, None), (1, Some ''Q''), (2, None)] []) = Inr results"
    and p: "\<forall>i < length [(2::int, None :: ShippingZone), (1, Some ''Q''), (2, None)].
          fst (batch_load example_stocks 10
                 [[(2::int, None :: ShippingZone), (1, Some ''Q''), (2, None)] ! i] [])
            = Inr [results ! i]"
    by blast
  from r e have "results = [0, 8, 0]" by simp
  with p h have "fst (batch_load example_stocks 10
                 [[(2::int, None :: ShippingZone), (1, Some ''Q''), (2, None)] ! 1] [])
            = Inr [[0, 8, 0] ! 1]" by blast
  with h e show ?thesis by blast
qed

text \<open>
  C5 as stated fails: the partition appends every variant id it meets, so a key that occurs
  twice leaves its variant id twice in the list of its zone.
\<close>

theorem partition_keeps_duplicates:
  "\<not> list_all (\<lambda>p. distinct (snd p)) (variants_by_shipping_zone [(1, None), (1, None)])"
  by (simp add: variants_by_shipping_zone_def)

text \<open>
  C5 as amended. The partition maps every shipping zone of the batch, once, to the list of
  the variant ids requested under it, in the order and with the multiplicity of the keys
  (never empty); and every key has its variant id in the list of exactly one item of the
  partition, the one of its zone.
\<close>

theorem partition_lists_requested:
  "distinct (map fst (variants_by_shipping_zone keys))
   \<and> (\<forall>p \<in> set (variants_by_shipping_zone keys).
         snd p = map fst (filter (\<lambda>key. snd key = fst p) keys) \<and> snd p \<noteq> [])
   \<and> (\<forall>key \<in> set keys.
         \<exists>!p. p \<in> set (variants_by_shipping_zone keys) \<and> fst p = snd key
              \<and> fst key \<in> set (snd p))"
proof (intro conjI ballI)
  show "distinct (map fst (variants_by_shipping_zone keys))" by (rule distinct_partition)
next
  fix p assume p: "p \<in> set (variants_by_shipping_zone keys)"
  then have "(fst p, snd p) \<in> set (variants_by_shipping_zone keys)" by simp
  then have z: "fst p \<in> snd ` set keys" and r: "snd p = requested keys (fst p)"
    unfolding in_partition_iff by simp_all
  from r show "snd p = map fst (filter (\<lambda>key. snd key = fst p) keys)"
    by (simp add: requested_def)
  from z obtain key where "key \<in> set keys" and "snd key = fst p" by auto
  then have "fst key \<in> set (requested keys (fst p))" using in_requested [of key keys] by simp
  with r show "snd p \<noteq> []" by auto
next
  fix key assume k: "key \<in> set keys"
  show "\<exists>!p. p \<in> set (variants_by_shipping_zone keys) \<and> fst p = snd key \<and> fst key \<in> set (snd p)"
  proof (rule ex1I [of _ "(snd key, requested keys (snd key))"])
    from k have "(snd key, requested keys (snd key)) \<in> set (variants_by_shipping_zone keys)"
      unfolding in_partition_iff by simp
    with in_requested [OF k]
    show "(snd key, requested keys (snd key)) \<in> set (variants_by_shipping_zone keys)
          \<and> fst (snd key, requested keys (snd key)) = snd key
          \<and> fst key \<in> set (snd (snd key, requested keys (snd key)))"
      by simp
  next
    fix p
    assume a: "p \<in> set (variants_by_shipping_zone keys) \<and> fst p = snd key \<and> fst key \<in> set (snd p)"
    have "p = (fst p, snd p)" by simp
    with a have "(fst p, snd p) \<in> set (variants_by_shipping_zone keys)" by metis
    then have "snd p = requested keys (fst p)" unfolding in_partition_iff by simp
    with a show "p = (snd key, requested keys (snd key))" by (simp add: prod_eq_iff)
  qed
qed

text \<open>
  Witness of C5: the key \<open>(1, None)\<close>, which occurs twice.
\<close>

theorem partition_lists_requested_witness:
  "(1, None) \<in> set [(1::int, None :: ShippingZone), (2, Some ''Q''), (1, None)]
   \<and> variants_by_shipping_zone [(1, None), (2, Some ''Q''), (1, None)]
        = [(None, [1, 1]), (Some ''Q'', [2])]
   \<and> (\<exists>!p. p \<in> set (variants_by_shipping_zone [(1, None), (2, Some ''Q''), (1, None)])
           \<and> fst p = snd (1::int, None :: ShippingZone)
           \<and> fst (1::int, None :: ShippingZone) \<in> set (snd p))"
proof -
  have h: "(1, None) \<in> set [(1::int, None :: ShippingZone), (2, Some ''Q''), (1, None)]" by simp
  have e: "variants_by_shipping_zone [(1, None), (2, Some ''Q''), (1, None)]
        = [(None, [1, 1]), (Some ''Q'', [2])]"
    by (simp add: variants_by_shipping_zone_def)
  from partition_lists_requested [of "[(1, None), (2, Some ''Q''), (1, None)]"]
  have "\<forall>key \<in> set [(1::int, None :: ShippingZone), (2, Some ''Q''), (1, None)].
         \<exists>!p. p \<in> set (variants_by_shipping_zone [(1, None), (2, Some ''Q''), (1, None)])
              \<and> fst p = snd key \<and> fst key \<in> set (snd p)"
    by blast
  from bspec [OF this h] h e show ?thesis by blast
qed

text \<open>
  C6 as stated fails: a requested variant without any row is not in the quantity map, yet
  the method returns a pair for it, with the quantity \<open>min 0 cap\<close>.
\<close>

theorem group_output_has_items_without_rows:
  "quantity_map [] None [1] = Inr Map.empty
   \<and> fst (batch_load_shipping_zone [] 10 None [1] []) = Inr [(1, 0)]"
  by (simp add: eval_defs)

text \<open>
  C6 as amended. The quantity map (lines 66 to 71) has exactly the requested variants with at
  least one row as its keys; the list that the method returns has one pair for every
  requested variant, in the order and multiplicity of the request, and the pair of a
  variant that is not in the map holds \<open>min 0 cap\<close>.
\<close>

theorem group_output_covers_requested:
  "\<exists>qm. quantity_map stocks shipping_zone variant_ids = Inr qm
      \<and> dom qm = product_variant_id ` set stocks \<inter> set variant_ids
      \<and> fst (batch_load_shipping_zone stocks cap shipping_zone variant_ids log) =
          Inr (map (\<lambda>variant_id.
                      (variant_id, min (case qm variant_id of None \<Rightarrow> 0 | Some q \<Rightarrow> q) cap))
                   variant_ids)"
proof -
  obtain qm where qm: "quantity_map stocks shipping_zone variant_ids = Inr qm"
    unfolding quantity_map_eq by simp
  then have "qm = (\<lambda>item.
            if item \<in> fst ` set (values_list (filter_product_variant_id_in variant_ids stocks))
            then Some (max_subgroup_sum
                         (values_list (filter_product_variant_id_in variant_ids stocks)) item)
            else None)"
    unfolding quantity_map_eq by simp
  then have "dom qm = product_variant_id ` set stocks \<inter> set variant_ids"
    unfolding items_of_query by (auto simp: dom_def)
  moreover have "fst (batch_load_shipping_zone stocks cap shipping_zone variant_ids log) =
          Inr (map (\<lambda>variant_id.
                      (variant_id, min (case qm variant_id of None \<Rightarrow> 0 | Some q \<Rightarrow> q) cap))
                   variant_ids)"
    unfolding batch_load_shipping_zone_def qm by (simp add: defaultdict_int_get_def)
  ultimately show ?thesis using qm by blast
qed

text \<open>
  C7. If the cap and all quantities of the table are not negative, the batch returns, for
  every key, the minimum of the cap and of the aggregated value of the key's item, or of 0
  when the item has no record: the aggregated value is the maximum of the subgroup sums,
  as the specification words it, over the records that the query of the key's group
  returns. This answer lies between 0 and the cap.
\<close>

theorem answers_are_clamped:
  assumes "0 \<le> cap" and "\<forall>s\<in>set stocks. 0 \<le> available_quantity s"
  shows "\<exists>results. fst (batch_load stocks cap keys log) = Inr results
      \<and> length results = length keys
      \<and> (\<forall>i < length keys.
            results ! i =
              min (if fst (keys ! i) \<in> fst ` set (values_list
                        (filter_product_variant_id_in (requested keys (snd (keys ! i))) stocks))
                   then max_subgroup_sum
                          (values_list
                             (filter_product_variant_id_in (requested keys (snd (keys ! i))) stocks))
                          (fst (keys ! i))
                   else 0) cap
          \<and> 0 \<le> results ! i \<and> results ! i \<le> cap)"
proof -
  let ?results = "map (\<lambda>key. min (aggregated stocks (fst key)) cap) keys"
  have "?results ! i =
              min (if fst (keys ! i) \<in> fst ` set (values_list
                        (filter_product_variant_id_in (requested keys (snd (keys ! i))) stocks))
                   then max_subgroup_sum
                          (values_list
                             (filter_product_variant_id_in (requested keys (snd (keys ! i))) stocks))
                          (fst (keys ! i))
                   else 0) cap
          \<and> 0 \<le> ?results ! i \<and> ?results ! i \<le> cap"
    if i: "i < length keys" for i
  proof -
    from i have "keys ! i \<in> set keys" by simp
    then have r: "fst (keys ! i) \<in> set (requested keys (snd (keys ! i)))" by (rule in_requested)
    have a: "aggregated stocks (fst (keys ! i)) =
            (if fst (keys ! i) \<in> fst ` set (values_list
                        (filter_product_variant_id_in (requested keys (snd (keys ! i))) stocks))
                   then max_subgroup_sum
                          (values_list
                             (filter_product_variant_id_in (requested keys (snd (keys ! i))) stocks))
                          (fst (keys ! i))
                   else 0)"
      using r by (simp add: aggregated_def items_of_query max_subgroup_sum_of_query)
    have "0 \<le> aggregated stocks (fst (keys ! i))" using assms(2) by (rule aggregated_nonneg)
    with assms(1) i a show ?thesis by simp
  qed
  then have a: "\<forall>i < length keys.
            ?results ! i =
              min (if fst (keys ! i) \<in> fst ` set (values_list
                        (filter_product_variant_id_in (requested keys (snd (keys ! i))) stocks))
                   then max_subgroup_sum
                          (values_list
                             (filter_product_variant_id_in (requested keys (snd (keys ! i))) stocks))
                          (fst (keys ! i))
                   else 0) cap
          \<and> 0 \<le> ?results ! i \<and> ?results ! i \<le> cap"
    by blast
  have e: "fst (batch_load stocks cap keys log) = Inr ?results" by (simp add: batch_load_eq)
  have n: "length ?results = length keys" by simp
  show ?thesis by (rule exI [of _ ?results]) (rule conjI [OF e conjI [OF n a]])
qed

text \<open>
  Witness of C7: the example table under the cap 6. The theorem fixes all three answers: 6
  for both occurrences of the key \<open>(1, Q)\<close>, whose aggregated value 8 exceeds the
  cap, and 0 for the item without a record.
\<close>

theorem answers_are_clamped_witness:
  "(0::int) \<le> 6 \<and> list_all (\<lambda>s. 0 \<le> available_quantity s) example_stocks
   \<and> fst (batch_load example_stocks 6 example_keys []) = Inr [6, 0, 6]"
proof -
  have h1: "(0::int) \<le> 6" by simp
  have l: "list_all (\<lambda>s. 0 \<le> available_quantity s) example_stocks"
    by (simp add: example_stocks_def)
  then have h2: "\<forall>s\<in>set example_stocks. 0 \<le> available_quantity s"
    by (simp add: list_all_iff)
  from answers_are_clamped [OF h1 h2, of example_keys "[]"]
  obtain results where r: "fst (batch_load example_stocks 6 example_keys []) = Inr results"
    and n: "length results = length example_keys"
    and v: "\<forall>i < length example_keys.
            results ! i =
              min (if fst (example_keys ! i) \<in> fst ` set (values_list
                        (filter_product_variant_id_in
                           (requested example_keys (snd (example_keys ! i))) example_stocks))
                   then max_subgroup_sum
                          (values_list
                             (filter_product_variant_id_in
                                (requested example_keys (snd (example_keys ! i))) example_stocks))
                          (fst (example_keys ! i))
                   else 0) 6
          \<and> 0 \<le> results ! i \<and> results ! i \<le> 6"
    by blast
  have len: "length example_keys = 3" by (simp add: example_keys_def)
  have i0: "0 < length example_keys" and i1: "1 < length example_keys"
    and i2: "2 < length example_keys"
    by (simp_all add: len)
  have k0: "example_keys ! 0 = (1, Some ''Q'')" and k1: "example_keys ! 1 = (2, None)"
    and k2: "example_keys ! 2 = (1, Some ''Q'')"
    by (simp_all add: example_keys_def)
  have q: "values_list (filter_product_variant_id_in (requested example_keys (Some ''Q''))
             example_stocks) = [(1, Some 1, 5), (1, Some 1, 3), (1, Some 2, 4)]"
    by (simp add: example_keys_def requested_def values_list_def filter_product_variant_id_in_def
        example_stocks_def)
  have g: "values_list (filter_product_variant_id_in (requested example_keys None)
             example_stocks) = []"
    by (simp add: example_keys_def requested_def values_list_def filter_product_variant_id_in_def
        example_stocks_def)
  have m: "max_subgroup_sum [(1, Some 1, 5), (1, Some 1, 3), (1, Some 2, 4)] 1 = 8"
    by (simp add: max_subgroup_sum_def subgroups_of_def subgroup_sum_def)
  from v [rule_format, OF i0, unfolded k0 fst_conv snd_conv q m]
  have "results ! 0 = 6" by simp
  moreover from v [rule_format, OF i1, unfolded k1 fst_conv snd_conv g]
  have "results ! 1 = 0" by simp
  moreover from v [rule_format, OF i2, unfolded k2 fst_conv snd_conv q m]
  have "results ! 2 = 6" by simp
  moreover from n len obtain a b c where "results = [a, b, c]"
    by (auto simp: numeral_3_eq_3 length_Suc_conv)
  ultimately have "results = [6, 0, 6]" by simp
  with r have "fst (batch_load example_stocks 6 example_keys []) = Inr [6, 0, 6]" by simp
  then show ?thesis by (rule conjI [OF h1 conjI [OF l]])
qed

text \<open>
  C8. A batch whose keys name N distinct shipping zones executes exactly N queries, however
  many keys or variant ids a zone has: the log grows by one entry for every distinct
  second component of the keys. The empty batch answers the empty list and executes no
  query.
\<close>

theorem one_query_per_shipping_zone:
  "(\<exists>queries. snd (batch_load stocks cap keys log) = log @ queries
       \<and> length queries = card (snd ` set keys))
   \<and> batch_load stocks cap [] log = (Inr [], log)"
proof -
  have "snd (batch_load stocks cap keys log) = log @ map snd (variants_by_shipping_zone keys)"
    by (simp add: batch_load_eq)
  moreover have "length (map snd (variants_by_shipping_zone keys)) = card (snd ` set keys)"
    by (simp add: length_partition)
  moreover have "batch_load stocks cap [] log = (Inr [], log)"
    by (simp add: batch_load_eq variants_by_shipping_zone_def)
  ultimately show ?thesis by blast
qed

text \<open>
  C9 (the code departs from the claim). The claim wants 0 for a key whose variant has no
  row under the key's shipping zone. Variant 7 below has one row, under the zone EU, and
  none under US; the query for US still returns that row, because the filter of line 50
  is dropped, and the key \<open>(7, US)\<close> is answered 4.
\<close>

theorem zero_default_broken_example:
  "filter_shipping_zones_name (Some ''US'')
     (filter_product_variant_id_in [7]
        [\<lparr>product_variant_id = 7, warehouse_shipping_zones = Some 3,
          warehouse_shipping_zones_name = Some ''EU'', available_quantity = 4\<rparr>]) = []
   \<and> batch_load
       [\<lparr>product_variant_id = 7, warehouse_shipping_zones = Some 3,
         warehouse_shipping_zones_name = Some ''EU'', available_quantity = 4\<rparr>]
       50 [(7, Some ''US'')] [] = (Inr [4], [[7]])"
  by (simp add: eval_defs)

text \<open>
  C10. Within one batch, two positions that hold the same key hold the same answer.
\<close>

theorem duplicate_keys_same_answer:
  assumes "i < length keys" and "j < length keys" and "keys ! i = keys ! j"
  shows "\<exists>results. fst (batch_load stocks cap keys log) = Inr results
           \<and> length results = length keys \<and> results ! i = results ! j"
  using assms by (simp add: batch_load_eq)

text \<open>
  Witness of C10: positions 0 and 2 of the example batch hold the key \<open>(1, Q)\<close>.
\<close>

theorem duplicate_keys_same_answer_witness:
  "0 < length example_keys \<and> 2 < length example_keys \<and> example_keys ! 0 = example_keys ! 2
   \<and> (\<exists>results. fst (batch_load example_stocks 10 example_keys []) = Inr results
       \<and> length results = length example_keys \<and> results ! 0 = results ! 2)"
proof -
  have h1: "0 < length example_keys" by (simp add: example_keys_def)
  have h2: "2 < length example_keys" by (simp add: example_keys_def)
  have h3: "example_keys ! 0 = example_keys ! 2" by (simp add: example_keys_def)
  note c = duplicate_keys_same_answer [OF h1 h2 h3, of example_stocks 10 "[]"]
  show ?thesis by (rule conjI [OF h1 conjI [OF h2 conjI [OF h3 c]]])
qed

end
